theory Spec2Isabelle
  imports Main "HOL-Library.Word" "HOL-Library.AList"
begin

unbundle bit_operations_syntax

section \<open>The C interface of \<^verbatim>\<open>dpdk-sys/c/wrapper.h\<close>\<close>

text \<open>
  The fixed-width integer types of the three wrapper functions. \<^verbatim>\<open>int\<close> is the 32-bit
  integer of the supported targets (a 32-bit word, read as two's complement by \<open>sint\<close>).
  A \<^verbatim>\<open>struct rte_mbuf *\<close> is an opaque buffer handle; a \<^verbatim>\<open>struct rte_mbuf **\<close> is the
  address of the first slot of a batch array, and slot \<open>i\<close> of the batch lives at address
  \<open>base + i\<close> (addresses count pointer-sized slots).
\<close>

type_synonym uint16_t = "16 word"
type_synonym uint64_t = "64 word"
type_synonym c_int = "32 word"
type_synonym mbuf = nat
type_synonym mbuf_array = nat

text \<open>
  \<^verbatim>\<open>wrapper.c\<close> uses three names that \<^verbatim>\<open>dpdk.h\<close> pulls in from the driver's own headers:
  the thread-local \<^verbatim>\<open>rte_errno\<close> and the burst primitives \<^verbatim>\<open>rte_eth_rx_burst\<close> and
  \<^verbatim>\<open>rte_eth_tx_burst\<close>. They are parameters of the embedding: a driver over a world
  \<open>'w\<close> (everything the driver can read and write: queues, rings, the caller's memory,
  the calling thread's error slot) reads the error slot and performs the two primitives
  as state transformers.
\<close>

record 'w dpdk =
  rte_errno :: "'w \<Rightarrow> c_int"
  rte_eth_rx_burst :: "uint16_t \<Rightarrow> uint16_t \<Rightarrow> mbuf_array \<Rightarrow> uint16_t \<Rightarrow> 'w \<Rightarrow> uint16_t \<times> 'w"
  rte_eth_tx_burst :: "uint16_t \<Rightarrow> uint16_t \<Rightarrow> mbuf_array \<Rightarrow> uint16_t \<Rightarrow> 'w \<Rightarrow> uint16_t \<times> 'w"

section \<open>The wrapper functions of \<^verbatim>\<open>dpdk-sys/c/wrapper.c\<close>\<close>

text \<open>\<^verbatim>\<open>int wrte_errno() { return rte_errno; }\<close>: a read of the slot; the world is returned as it was.\<close>

definition wrte_errno :: "'w dpdk \<Rightarrow> 'w \<Rightarrow> c_int \<times> 'w" where
  "wrte_errno d w = (rte_errno d w, w)"

text \<open>\<^verbatim>\<open>return rte_eth_rx_burst(port_id, queue_id, rx_pkts, nb_pkts);\<close>\<close>

definition wrte_eth_rx_burst ::
  "'w dpdk \<Rightarrow> uint16_t \<Rightarrow> uint16_t \<Rightarrow> mbuf_array \<Rightarrow> uint16_t \<Rightarrow> 'w \<Rightarrow> uint16_t \<times> 'w" where
  "wrte_eth_rx_burst d port_id queue_id rx_pkts nb_pkts w =
     rte_eth_rx_burst d port_id queue_id rx_pkts nb_pkts w"

text \<open>\<^verbatim>\<open>return rte_eth_tx_burst(port_id, queue_id, tx_pkts, nb_pkts);\<close>\<close>

definition wrte_eth_tx_burst ::
  "'w dpdk \<Rightarrow> uint16_t \<Rightarrow> uint16_t \<Rightarrow> mbuf_array \<Rightarrow> uint16_t \<Rightarrow> 'w \<Rightarrow> uint16_t \<times> 'w" where
  "wrte_eth_tx_burst d port_id queue_id tx_pkts nb_pkts w =
     rte_eth_tx_burst d port_id queue_id tx_pkts nb_pkts w"

section \<open>The transmit offload flags of \<^verbatim>\<open>dpdk-sys/c/wrapper.h\<close>\<close>

text \<open>\<^verbatim>\<open>enum wrte_eth_tx_offload: uint64_t\<close>, lines 36-51: fourteen enumerators, in this order.\<close>

datatype wrte_eth_tx_offload =
    VLAN_INSERT
  | IPV4_CKSUM
  | UDP_CKSUM
  | TCP_CKSUM
  | SCTP_CKSUM
  | TCP_TSO
  | UDP_TSO
  | OUTER_IPV4_CKSUM
  | QINQ_INSERT
  | VXLAN_TNL_TSO
  | GRE_TNL_TSO
  | IPIP_TNL_TSO
  | GENEVE_TNL_TSO
  | MACSEC_INSERT

definition all_offloads :: "wrte_eth_tx_offload list" where
  "all_offloads =
     [VLAN_INSERT, IPV4_CKSUM, UDP_CKSUM, TCP_CKSUM, SCTP_CKSUM, TCP_TSO, UDP_TSO,
      OUTER_IPV4_CKSUM, QINQ_INSERT, VXLAN_TNL_TSO, GRE_TNL_TSO, IPIP_TNL_TSO,
      GENEVE_TNL_TSO, MACSEC_INSERT]"

text \<open>
  ``This is a bitfield. Union these to enable multiple offloads'' (\<^verbatim>\<open>wrapper.h\<close>, line 30):
  the enumeration is typed \<^verbatim>\<open>uint64_t\<close>, and the union of two values is C's \<^verbatim>\<open>|\<close> on
  that type.
\<close>

definition offload_union :: "uint64_t \<Rightarrow> uint64_t \<Rightarrow> uint64_t" where
  "offload_union a b = a OR b"

text \<open>
  Modelled from the spec: the value of each enumerator is a macro
  \<^verbatim>\<open>RTE_ETH_TX_OFFLOAD_*\<close> of the driver's headers, which are not part of this repository.
  Section 4.2 of the spec: ``Each flag occupies one bit of a 64-bit-wide domain'', each a
  ``distinct flag in a closed set''. The spec names no bit positions; the model gives each
  flag the bit of its position in the enumeration.
\<close>

fun offload_bit :: "wrte_eth_tx_offload \<Rightarrow> nat" where
  "offload_bit VLAN_INSERT = 0"
| "offload_bit IPV4_CKSUM = 1"
| "offload_bit UDP_CKSUM = 2"
| "offload_bit TCP_CKSUM = 3"
| "offload_bit SCTP_CKSUM = 4"
| "offload_bit TCP_TSO = 5"
| "offload_bit UDP_TSO = 6"
| "offload_bit OUTER_IPV4_CKSUM = 7"
| "offload_bit QINQ_INSERT = 8"
| "offload_bit VXLAN_TNL_TSO = 9"
| "offload_bit GRE_TNL_TSO = 10"
| "offload_bit IPIP_TNL_TSO = 11"
| "offload_bit GENEVE_TNL_TSO = 12"
| "offload_bit MACSEC_INSERT = 13"

definition offload_value :: "wrte_eth_tx_offload \<Rightarrow> uint64_t" where
  "offload_value f = push_bit (offload_bit f) 1"

section \<open>A driver that records the calls it receives\<close>

text \<open>
  To observe what the wrapper hands to the driver, any driver \<open>d\<close> is extended to one
  that behaves as \<open>d\<close> and appends each burst call, with the arguments it was given, to a
  log kept beside the world.
\<close>

datatype driver_call =
    Rx_burst uint16_t uint16_t mbuf_array uint16_t
  | Tx_burst uint16_t uint16_t mbuf_array uint16_t

definition logged :: "'w dpdk \<Rightarrow> ('w \<times> driver_call list) dpdk" where
  "logged d =
     \<lparr> rte_errno = (\<lambda>wl. rte_errno d (fst wl)),
       rte_eth_rx_burst = (\<lambda>port_id queue_id rx_pkts nb_pkts wl.
          (fst (rte_eth_rx_burst d port_id queue_id rx_pkts nb_pkts (fst wl)),
           (snd (rte_eth_rx_burst d port_id queue_id rx_pkts nb_pkts (fst wl)),
            snd wl @ [Rx_burst port_id queue_id rx_pkts nb_pkts]))),
       rte_eth_tx_burst = (\<lambda>port_id queue_id tx_pkts nb_pkts wl.
          (fst (rte_eth_tx_burst d port_id queue_id tx_pkts nb_pkts (fst wl)),
           (snd (rte_eth_tx_burst d port_id queue_id tx_pkts nb_pkts (fst wl)),
            snd wl @ [Tx_burst port_id queue_id tx_pkts nb_pkts]))) \<rparr>"

section \<open>The driver and its queues, from the spec\<close>

text \<open>
  Modelled from the spec: the world behind the driver, which this repository does not
  contain. Section 3: a packet buffer is an opaque handle with exactly one owner at any
  instant, the NIC queue (or its ring) or the caller; a batch is a caller-owned contiguous
  array of handles; a (port, queue) pair is either configured or not. Section 4.1: the
  error slot belongs to the calling execution context. The world holds the caller's
  memory (the handle stored at each slot address), the configured receive queues with
  their pending handles in delivery order, the configured transmit queues with the
  handles in their ring in submission order and the number of free descriptors, the
  handles the caller owns, and the error slot of the calling context.
\<close>

record nic =
  memory :: "nat \<Rightarrow> mbuf"
  rx_queues :: "((uint16_t \<times> uint16_t) \<times> mbuf list) list"
  tx_queues :: "((uint16_t \<times> uint16_t) \<times> (mbuf list \<times> nat)) list"
  caller_owned :: "mbuf list"
  per_lcore_rte_errno :: c_int

text \<open>
  Modelled from the spec: the handles the NIC owns are those pending in a receive queue or
  held in a transmit ring (section 3: ``the NIC queue (or its backing ring) owns the
  buffer'').
\<close>

definition nic_owned :: "nic \<Rightarrow> mbuf list" where
  "nic_owned w = concat (map snd (rx_queues w)) @ concat (map (fst \<circ> snd) (tx_queues w))"

text \<open>
  Modelled from the spec: section 3, ``Exactly one owner exists at any instant -- no
  aliasing across the boundary'': no handle occurs twice among the queues, the rings and
  the caller's handles.
\<close>

definition single_owner :: "nic \<Rightarrow> bool" where
  "single_owner w = distinct (nic_owned w @ caller_owned w)"

text \<open>
  Modelled from the spec: a batch is a ``contiguous array of buffer handles'' (section 3).
  Handles are written into consecutive slots from the base address of the batch.
\<close>

fun store_batch :: "mbuf_array \<Rightarrow> mbuf list \<Rightarrow> (nat \<Rightarrow> mbuf) \<Rightarrow> (nat \<Rightarrow> mbuf)" where
  "store_batch a [] m = m"
| "store_batch a (h # hs) m = store_batch (Suc a) hs (m(a := h))"

text \<open>Modelled from the spec: the handles held by the first \<open>n\<close> slots of the batch at \<open>a\<close>.\<close>

definition load_batch :: "mbuf_array \<Rightarrow> nat \<Rightarrow> (nat \<Rightarrow> mbuf) \<Rightarrow> mbuf list" where
  "load_batch a n m = map (\<lambda>i. m (a + i)) [0..<n]"

text \<open>
  Modelled from the spec: the driver's receive primitive (\<^verbatim>\<open>rte_eth_rx_burst\<close>, not in this
  repository). Section 4.3: it fills the first \<open>actual_count\<close> slots of the batch with
  handles drawn from the queue, never waits, and returns ``whatever was available,
  including zero''; it ``advances the queue's internal consumption state by
  \<open>actual_count\<close>''; ownership of the handles passes to the caller; buffers come in the
  order the NIC delivered them (section 5). Section 7: on an invalid identifier the
  burst call returns zero and the error slot carries a nonzero value describing the
  fault; that value is the parameter \<open>fault\<close>.
\<close>

definition nic_rx_burst ::
  "c_int \<Rightarrow> uint16_t \<Rightarrow> uint16_t \<Rightarrow> mbuf_array \<Rightarrow> uint16_t \<Rightarrow> nic \<Rightarrow> uint16_t \<times> nic" where
  "nic_rx_burst fault port_id queue_id rx_pkts nb_pkts w =
     (case map_of (rx_queues w) (port_id, queue_id) of
        None \<Rightarrow> (0, w\<lparr>per_lcore_rte_errno := fault\<rparr>)
      | Some pending \<Rightarrow>
          (of_nat (length (take (unat nb_pkts) pending)),
           w\<lparr>memory := store_batch rx_pkts (take (unat nb_pkts) pending) (memory w),
             rx_queues := AList.update (port_id, queue_id)
                            (drop (unat nb_pkts) pending) (rx_queues w),
             caller_owned := caller_owned w @ take (unat nb_pkts) pending\<rparr>))"

text \<open>
  Modelled from the spec: the driver's transmit primitive (\<^verbatim>\<open>rte_eth_tx_burst\<close>, not in
  this repository). Section 4.3: it hands the first \<open>actual_count\<close> handles of the batch to
  the queue; ``if the queue's transmit ring is full or the driver cannot accept all items,
  it accepts a prefix and returns immediately''; it ``advances the queue's internal
  production state by \<open>actual_count\<close>''; ownership of the accepted handles passes to the
  driver, the caller keeps the rest, and the batch array itself is not written. Invalid
  identifiers are treated as in the receive primitive.
\<close>

definition nic_tx_burst ::
  "c_int \<Rightarrow> uint16_t \<Rightarrow> uint16_t \<Rightarrow> mbuf_array \<Rightarrow> uint16_t \<Rightarrow> nic \<Rightarrow> uint16_t \<times> nic" where
  "nic_tx_burst fault port_id queue_id tx_pkts nb_pkts w =
     (case map_of (tx_queues w) (port_id, queue_id) of
        None \<Rightarrow> (0, w\<lparr>per_lcore_rte_errno := fault\<rparr>)
      | Some (ring, room) \<Rightarrow>
          (of_nat (min (unat nb_pkts) room),
           w\<lparr>tx_queues := AList.update (port_id, queue_id)
                            (ring @ load_batch tx_pkts (min (unat nb_pkts) room) (memory w),
                             room - min (unat nb_pkts) room)
                            (tx_queues w),
             caller_owned :=
               filter (\<lambda>h. h \<notin> set (load_batch tx_pkts (min (unat nb_pkts) room) (memory w)))
                 (caller_owned w)\<rparr>))"

text \<open>
  Modelled from the spec: the modelled driver as an instance of the interface the wrapper
  is written against; \<^verbatim>\<open>rte_errno\<close> reads the error slot of the calling context.
\<close>

definition nic_driver :: "c_int \<Rightarrow> nic dpdk" where
  "nic_driver fault =
     \<lparr> rte_errno = per_lcore_rte_errno,
       rte_eth_rx_burst = nic_rx_burst fault,
       rte_eth_tx_burst = nic_tx_burst fault \<rparr>"

text \<open>
  Modelled from the spec: what happens on one execution context between its start and a
  read of the error slot. A driver operation that fails records its error code in the
  slot (section 4.1: a later operation that fails ``will overwrite the slot. There is no
  queue of past errors''); the caller may read the slot through \<open>wrte_errno\<close> at any
  point.
\<close>

datatype lcore_event = Fault c_int | Read_errno

fun lcore_run :: "c_int \<Rightarrow> lcore_event list \<Rightarrow> nic \<Rightarrow> nic" where
  "lcore_run fault [] w = w"
| "lcore_run fault (Fault e # evs) w = lcore_run fault evs (w\<lparr>per_lcore_rte_errno := e\<rparr>)"
| "lcore_run fault (Read_errno # evs) w = lcore_run fault evs (snd (wrte_errno (nic_driver fault) w))"

text \<open>Modelled from the spec: the error codes recorded along a run, oldest first.\<close>

fun faults :: "lcore_event list \<Rightarrow> c_int list" where
  "faults [] = []"
| "faults (Fault e # evs) = e # faults evs"
| "faults (Read_errno # evs) = faults evs"

text \<open>
  Modelled from the spec: a context at its start (section 4.1, ``since context start''):
  nothing configured, nothing owned, and zero, the no-error value, in the error slot.
\<close>

definition lcore_start :: nic where
  "lcore_start =
     \<lparr> memory = (\<lambda>a. 0), rx_queues = [], tx_queues = [], caller_owned = [],
       per_lcore_rte_errno = 0 \<rparr>"

section \<open>The scenarios of section 8 of the spec\<close>

text \<open>
  Modelled from the spec: ``queue configured, 32 packets physically queued on the NIC''.
  Queue 0 of port 0 holds the handles 100 to 131; the caller's batch will be 64 slots from
  address 1000. A second receive queue, a transmit ring and the caller hold other handles.
\<close>

definition rx_scenario :: nic where
  "rx_scenario =
     \<lparr> memory = (\<lambda>a. 0),
       rx_queues = [((0, 0), [100..<132]), ((0, 1), [200, 201])],
       tx_queues = [((0, 0), ([300], 4))],
       caller_owned = [400, 401],
       per_lcore_rte_errno = 0 \<rparr>"

text \<open>
  Modelled from the spec: ``transmit ring has room for only 10 more descriptors''. The ring
  of queue 1 of port 0 holds two handles and has 10 free descriptors; the caller owns the
  handles 500 to 549, and the slot at address \<open>a\<close> holds the handle \<open>500 + a\<close>, so the
  batch of 50 slots from address 0 holds exactly these handles. A receive queue holds
  other handles.
\<close>

definition tx_scenario :: nic where
  "tx_scenario =
     \<lparr> memory = (\<lambda>a. 500 + a),
       rx_queues = [((0, 0), [100, 101])],
       tx_queues = [((0, 1), ([300, 301], 10))],
       caller_owned = [500..<550],
       per_lcore_rte_errno = 0 \<rparr>"

section \<open>Auxiliary facts\<close>

subsection \<open>Batches in memory\<close>

lemma store_batch_apply:
  "store_batch a hs m x = (if a \<le> x \<and> x < a + length hs then hs ! (x - a) else m x)"
proof (induction hs arbitrary: a m)
  case Nil
  then show ?case by simp
next
  case (Cons h hs)
  show ?case by (auto simp: Cons.IH nth_Cons')
qed

lemma load_store_batch: "load_batch a (length hs) (store_batch a hs m) = hs"
  by (rule nth_equalityI) (simp_all add: load_batch_def store_batch_apply)

lemma load_batch_take: "k \<le> n \<Longrightarrow> load_batch a k m = take k (load_batch a n m)"
  by (simp add: load_batch_def take_map min_def)

lemma load_batch_nth: "i < n \<Longrightarrow> load_batch a n m ! i = m (a + i)"
  by (simp add: load_batch_def)

lemma length_load_batch: "length (load_batch a n m) = n"
  by (simp add: load_batch_def)

lemma nth_notin_take:
  assumes "distinct xs" "k \<le> i" "i < length xs"
  shows "xs ! i \<notin> set (take k xs)"
proof
  assume "xs ! i \<in> set (take k xs)"
  then obtain j where j: "j < length (take k xs)" "take k xs ! j = xs ! i"
    by (auto simp: in_set_conv_nth)
  then have "j < k" "j < length xs" "xs ! j = xs ! i" by simp_all
  with assms have "j = i" by (simp add: nth_eq_iff_index_eq)
  with \<open>j < k\<close> \<open>k \<le> i\<close> show False by simp
qed

subsection \<open>Queues as association lists\<close>

lemma concat_update:
  "map_of al k = Some v \<Longrightarrow>
   \<exists>A B. concat (map (f \<circ> snd) al) = A @ f v @ B
        \<and> concat (map (f \<circ> snd) (AList.update k v' al)) = A @ f v' @ B"
proof (induction al)
  case Nil
  then show ?case by simp
next
  case (Cons e al)
  obtain k0 v0 where e: "e = (k0, v0)" by (cases e)
  show ?case
  proof (cases "k0 = k")
    case True
    with Cons.prems e have "v0 = v" by simp
    with True e show ?thesis
      by (rule_tac x = "[]" in exI, rule_tac x = "concat (map (f \<circ> snd) al)" in exI) (simp add: comp_def)
  next
    case False
    with Cons.prems e have "map_of al k = Some v" by simp
    from Cons.IH [OF this] obtain A B where
      "concat (map (f \<circ> snd) al) = A @ f v @ B"
      "concat (map (f \<circ> snd) (AList.update k v' al)) = A @ f v' @ B" by blast
    with False e show ?thesis
      by (rule_tac x = "f v0 @ A" in exI, rule_tac x = B in exI) (simp add: comp_def)
  qed
qed

lemma map_of_in_concat:
  "map_of al k = Some v \<Longrightarrow> set (f v) \<subseteq> set (concat (map (f \<circ> snd) al))"
proof -
  assume "map_of al k = Some v"
  from concat_update [OF this, of f v] obtain A B
    where "concat (map (f \<circ> snd) al) = A @ f v @ B" by blast
  then have "set (concat (map (f \<circ> snd) al)) = set (A @ f v @ B)" by (rule arg_cong)
  then show ?thesis by auto
qed

subsection \<open>Counts as 16-bit words\<close>

lemma unat_of_nat_le16:
  assumes "k \<le> unat (n :: 16 word)"
  shows "unat (of_nat k :: 16 word) = k"
proof -
  have "unat n < 2 ^ 16" using unsigned_less [of n] by simp
  with assms have "k < 2 ^ 16" by simp
  then show ?thesis by (simp add: unat_of_nat)
qed

lemma unat_of_nat_min16:
  "unat (of_nat (min (unat (n :: 16 word)) k) :: 16 word) = min (unat n) k"
  "unat (of_nat (min k (unat (n :: 16 word))) :: 16 word) = min k (unat n)"
  by (rule unat_of_nat_le16 [of _ n], simp)+

subsection \<open>The wrappers on a configured queue of the modelled driver\<close>

lemma rx_valid:
  assumes "map_of (rx_queues w) (p, q) = Some pending"
  shows "wrte_eth_rx_burst (nic_driver fault) p q b n w =
     (of_nat (min (unat n) (length pending)),
      w\<lparr>memory := store_batch b (take (unat n) pending) (memory w),
        rx_queues := AList.update (p, q) (drop (unat n) pending) (rx_queues w),
        caller_owned := caller_owned w @ take (unat n) pending\<rparr>)"
  using assms by (simp add: wrte_eth_rx_burst_def nic_driver_def nic_rx_burst_def min.commute)

lemma tx_valid:
  assumes "map_of (tx_queues w) (p, q) = Some (ring, room)"
  shows "wrte_eth_tx_burst (nic_driver fault) p q b n w =
     (of_nat (min (unat n) room),
      w\<lparr>tx_queues := AList.update (p, q)
           (ring @ load_batch b (min (unat n) room) (memory w), room - min (unat n) room)
           (tx_queues w),
        caller_owned := filter (\<lambda>h. h \<notin> set (load_batch b (min (unat n) room) (memory w)))
           (caller_owned w)\<rparr>)"
  using assms by (simp add: wrte_eth_tx_burst_def nic_driver_def nic_tx_burst_def)

subsection \<open>Ownership\<close>

lemma distinct_move:
  assumes "distinct (A @ pend @ B @ T @ own)"
  shows "distinct (A @ drop n pend @ B @ T @ own @ take n pend)"
    and "set (take n pend) \<inter> set (A @ drop n pend @ B @ T) = {}"
proof -
  have "pend = take n pend @ drop n pend" by simp
  then obtain xs ys where p: "pend = xs @ ys" and xs: "take n pend = xs" and ys: "drop n pend = ys"
    by blast
  from assms show "distinct (A @ drop n pend @ B @ T @ own @ take n pend)"
    unfolding xs ys unfolding p by auto
  from assms show "set (take n pend) \<inter> set (A @ drop n pend @ B @ T) = {}"
    unfolding xs ys unfolding p by auto
qed

lemma rx_single_owner:
  assumes q: "map_of (rx_queues w) (p, q) = Some pending" and so: "single_owner w"
  shows "single_owner (snd (wrte_eth_rx_burst (nic_driver fault) p q b n w))"
    and "set (take (unat n) pending) \<inter> set (nic_owned (snd (wrte_eth_rx_burst (nic_driver fault) p q b n w))) = {}"
    and "distinct pending"
proof -
  from concat_update [OF q, of id "drop (unat n) pending"] obtain A B where
    a: "concat (map snd (rx_queues w)) = A @ pending @ B" and
    b: "concat (map snd (AList.update (p, q) (drop (unat n) pending) (rx_queues w)))
          = A @ drop (unat n) pending @ B"
    by auto
  let ?T = "concat (map (fst \<circ> snd) (tx_queues w))"
  from so a have d: "distinct (A @ pending @ B @ ?T @ caller_owned w)"
    by (simp add: single_owner_def nic_owned_def)
  from d show "distinct pending" by simp
  from distinct_move(1) [OF d, of "unat n"] b
  show "single_owner (snd (wrte_eth_rx_burst (nic_driver fault) p q b n w))"
    by (simp add: rx_valid [OF q] single_owner_def nic_owned_def)
  from distinct_move(2) [OF d, of "unat n"] b
  show "set (take (unat n) pending) \<inter> set (nic_owned (snd (wrte_eth_rx_burst (nic_driver fault) p q b n w))) = {}"
    by (simp add: rx_valid [OF q] nic_owned_def)
qed

lemma distinct_hand_over:
  assumes "distinct (R @ A @ ring @ B @ own)" "distinct sent" "set sent \<subseteq> set own"
  shows "distinct (R @ A @ (ring @ sent) @ B @ filter (\<lambda>h. h \<notin> set sent) own)"
  using assms by auto

lemma tx_single_owner:
  assumes q: "map_of (tx_queues w) (p, q) = Some (ring, room)"
    and so: "single_owner w"
    and d: "distinct (load_batch b (unat n) (memory w))"
    and own: "set (load_batch b (unat n) (memory w)) \<subseteq> set (caller_owned w)"
  shows "single_owner (snd (wrte_eth_tx_burst (nic_driver fault) p q b n w))"
proof -
  let ?k = "min (unat n) room"
  let ?sent = "load_batch b ?k (memory w)"
  have sent: "?sent = take ?k (load_batch b (unat n) (memory w))"
    by (rule load_batch_take) simp
  from d have ds: "distinct ?sent" unfolding sent by (rule distinct_take)
  from own have os: "set ?sent \<subseteq> set (caller_owned w)"
    unfolding sent by (meson order_trans set_take_subset)
  from concat_update [OF q, of fst "(ring @ ?sent, room - ?k)"] obtain A B where
    a: "concat (map (fst \<circ> snd) (tx_queues w)) = A @ ring @ B" and
    b: "concat (map (fst \<circ> snd) (AList.update (p, q) (ring @ ?sent, room - ?k) (tx_queues w)))
          = A @ (ring @ ?sent) @ B"
    by auto
  from so a have "distinct (concat (map snd (rx_queues w)) @ A @ ring @ B @ caller_owned w)"
    by (simp add: single_owner_def nic_owned_def)
  from distinct_hand_over [OF this ds os] b show ?thesis
    by (simp add: tx_valid [OF q] single_owner_def nic_owned_def)
qed

subsection \<open>The error slot along a run\<close>

lemma lcore_run_errno:
  "per_lcore_rte_errno (lcore_run fault evs w)
     = (if faults evs = [] then per_lcore_rte_errno w else last (faults evs))"
proof (induction evs arbitrary: w)
  case Nil
  then show ?case by simp
next
  case (Cons ev evs)
  then show ?case by (cases ev) (simp_all add: wrte_errno_def)
qed

subsection \<open>Bits of the offload values\<close>

lemma offload_bit_less: "offload_bit f < 64"
  by (cases f) simp_all

lemma offload_bit_inj: "offload_bit f = offload_bit g \<Longrightarrow> f = g"
  by (cases f; cases g; simp)

lemma bit_offload_value: "bit (offload_value f) n \<longleftrightarrow> n = offload_bit f"
  using offload_bit_less [of f] by (auto simp: offload_value_def bit_exp_iff)

lemma offload_value_inj: "(offload_value a = offload_value b) = (a = b)"
proof
  assume "offload_value a = offload_value b"
  then have "bit (offload_value a) (offload_bit a) = bit (offload_value b) (offload_bit a)"
    by simp
  then have "offload_bit a = offload_bit b" by (simp add: bit_offload_value)
  then show "a = b" by (rule offload_bit_inj)
qed simp

lemma all_offloads_UNIV: "set all_offloads = UNIV"
proof -
  have "x \<in> set all_offloads" for x by (cases x) (simp_all add: all_offloads_def)
  then show ?thesis by blast
qed

lemma distinct_offload_values: "distinct (map offload_value all_offloads)"
proof -
  have "distinct all_offloads" by (simp add: all_offloads_def)
  then show ?thesis by (simp add: distinct_map inj_on_def offload_value_inj)
qed

lemma offload_value_power: "offload_value f = 2 ^ offload_bit f"
  by (simp add: offload_value_def)

lemma unat_offload_value: "unat (offload_value f) = 2 ^ offload_bit f"
  by (cases f) (simp_all add: offload_value_def)

lemma offload_test_present:
  "offload_union (offload_value f) (offload_value g) AND offload_value f = offload_value f"
  "offload_union (offload_value f) (offload_value g) AND offload_value g = offload_value g"
  by (rule bit_eqI, auto simp: offload_union_def bit_and_iff bit_or_iff)+

lemma offload_test_iff:
  "(offload_union (offload_value f) (offload_value g) AND offload_value h \<noteq> 0)
     = (h = f \<or> h = g)"
proof -
  let ?x = "offload_union (offload_value f) (offload_value g) AND offload_value h"
  have b: "bit ?x n \<longleftrightarrow> (n = offload_bit f \<or> n = offload_bit g) \<and> n = offload_bit h" for n
    by (simp add: offload_union_def bit_and_iff bit_or_iff bit_offload_value)
  have "?x \<noteq> 0 \<longleftrightarrow> (\<exists>n. bit ?x n)"
    using bit_eq_iff [of ?x 0] by auto
  also have "\<dots> \<longleftrightarrow> offload_bit h = offload_bit f \<or> offload_bit h = offload_bit g"
    unfolding b by auto
  also have "\<dots> \<longleftrightarrow> h = f \<or> h = g"
    using offload_bit_inj by blast
  finally show ?thesis .
qed

section \<open>The claims\<close>

text \<open>
  C1. For every configured (port, queue) pair and every requested count, \<open>receive_burst\<close>
  (the wrapper over the driver's receive primitive) returns a count that is at most the
  requested count, namely what was pending up to the request, so it does not wait for more;
  it fills the first \<open>actual_count\<close> slots of the batch with the first \<open>actual_count\<close>
  pending handles of the queue, in order, and removes them from the queue; it writes no
  slot outside these; and a result of zero is no error: the error slot is left as it was.
\<close>

theorem receive_burst_bounded:
  assumes q: "map_of (rx_queues w) (port_id, queue_id) = Some pending"
  shows "let actual_count = fst (wrte_eth_rx_burst (nic_driver fault) port_id queue_id rx_pkts nb_pkts w);
             w' = snd (wrte_eth_rx_burst (nic_driver fault) port_id queue_id rx_pkts nb_pkts w)
         in unat actual_count \<le> unat nb_pkts
          \<and> unat actual_count = min (unat nb_pkts) (length pending)
          \<and> (\<forall>i < unat actual_count. memory w' (rx_pkts + i) = pending ! i)
          \<and> load_batch rx_pkts (unat actual_count) (memory w') = take (unat actual_count) pending
          \<and> map_of (rx_queues w') (port_id, queue_id) = Some (drop (unat actual_count) pending)
          \<and> (\<forall>a. a < rx_pkts \<or> rx_pkts + unat actual_count \<le> a \<longrightarrow> memory w' a = memory w a)
          \<and> per_lcore_rte_errno w' = per_lcore_rte_errno w"
proof -
  let ?res = "wrte_eth_rx_burst (nic_driver fault) port_id queue_id rx_pkts nb_pkts w"
  let ?got = "take (unat nb_pkts) pending"
  have cnt: "unat (fst ?res) = min (unat nb_pkts) (length pending)"
    by (simp add: rx_valid [OF q] unat_of_nat_min16)
  then have len: "unat (fst ?res) = length ?got" by (simp add: min.commute)
  have got: "take (unat (fst ?res)) pending = ?got"
    unfolding cnt by (simp add: min_def)
  have drp: "drop (unat (fst ?res)) pending = drop (unat nb_pkts) pending"
    unfolding cnt by (simp add: min_def)
  have mem: "memory (snd ?res) = store_batch rx_pkts ?got (memory w)"
    by (simp add: rx_valid [OF q])
  have slot: "memory (snd ?res) (rx_pkts + i) = pending ! i" if "i < unat (fst ?res)" for i
    using that len by (simp add: mem store_batch_apply)
  have "load_batch rx_pkts (unat (fst ?res)) (memory (snd ?res)) = ?got"
    unfolding len mem by (rule load_store_batch)
  then have batch: "load_batch rx_pkts (unat (fst ?res)) (memory (snd ?res))
      = take (unat (fst ?res)) pending"
    by (simp add: got)
  have "map_of (rx_queues (snd ?res)) (port_id, queue_id) = Some (drop (unat nb_pkts) pending)"
    by (simp add: rx_valid [OF q] update_conv')
  then have adv: "map_of (rx_queues (snd ?res)) (port_id, queue_id)
      = Some (drop (unat (fst ?res)) pending)"
    by (simp add: drp)
  have frame: "memory (snd ?res) a = memory w a"
    if "a < rx_pkts \<or> rx_pkts + unat (fst ?res) \<le> a" for a
    using that len by (auto simp: mem store_batch_apply)
  have err: "per_lcore_rte_errno (snd ?res) = per_lcore_rte_errno w"
    by (simp add: rx_valid [OF q])
  from cnt have le: "unat (fst ?res) \<le> unat nb_pkts" by simp
  from le cnt slot batch adv frame err show ?thesis unfolding Let_def by blast
qed

theorem receive_burst_bounded_witness:
  "map_of (rx_queues rx_scenario) (0, 0) = Some [100..<132]
   \<and> unat (fst (wrte_eth_rx_burst (nic_driver 19) 0 0 1000 64 rx_scenario)) = 32
   \<and> unat (fst (wrte_eth_rx_burst (nic_driver 19) 0 0 1000 64 rx_scenario)) \<le> unat (64 :: uint16_t)
   \<and> memory (snd (wrte_eth_rx_burst (nic_driver 19) 0 0 1000 64 rx_scenario)) (1000 + 0) = 100
   \<and> memory (snd (wrte_eth_rx_burst (nic_driver 19) 0 0 1000 64 rx_scenario)) (1000 + 31) = 131
   \<and> load_batch 1000 32 (memory (snd (wrte_eth_rx_burst (nic_driver 19) 0 0 1000 64 rx_scenario)))
       = [100..<132]
   \<and> map_of (rx_queues (snd (wrte_eth_rx_burst (nic_driver 19) 0 0 1000 64 rx_scenario))) (0, 0)
       = Some []
   \<and> memory (snd (wrte_eth_rx_burst (nic_driver 19) 0 0 1000 64 rx_scenario)) 1032 = memory rx_scenario 1032
   \<and> memory (snd (wrte_eth_rx_burst (nic_driver 19) 0 0 1000 64 rx_scenario)) 999 = memory rx_scenario 999
   \<and> per_lcore_rte_errno (snd (wrte_eth_rx_burst (nic_driver 19) 0 0 1000 64 rx_scenario)) = 0"
proof -
  let ?res = "wrte_eth_rx_burst (nic_driver 19) 0 0 1000 64 rx_scenario"
  have q: "map_of (rx_queues rx_scenario) (0, 0) = Some [100..<132]"
    by (simp add: rx_scenario_def)
  note r = receive_burst_bounded [OF q, of 19 1000 64, unfolded Let_def]
  from r have n: "unat (fst ?res) = 32" by simp
  from r have le: "unat (fst ?res) \<le> unat (64 :: uint16_t)" by blast
  from r [unfolded n] have a: "\<forall>i<32. memory (snd ?res) (1000 + i) = [100..<132] ! i"
    and b: "load_batch 1000 32 (memory (snd ?res)) = take 32 [100..<132]"
    and c: "map_of (rx_queues (snd ?res)) (0, 0) = Some (drop 32 [100..<132])"
    and f: "\<forall>a. a < 1000 \<or> 1000 + 32 \<le> a \<longrightarrow> memory (snd ?res) a = memory rx_scenario a"
    and e: "per_lcore_rte_errno (snd ?res) = per_lcore_rte_errno rx_scenario"
    by blast+
  from a [rule_format, of 0] have s0: "memory (snd ?res) (1000 + 0) = 100" by simp
  from a [rule_format, of 31] have s31: "memory (snd ?res) (1000 + 31) = 131" by simp
  from b have b': "load_batch 1000 32 (memory (snd ?res)) = [100..<132]" by simp
  from c have c': "map_of (rx_queues (snd ?res)) (0, 0) = Some []" by simp
  from f [rule_format, of 1032] have f1: "memory (snd ?res) 1032 = memory rx_scenario 1032" by simp
  from f [rule_format, of 999] have f2: "memory (snd ?res) 999 = memory rx_scenario 999" by simp
  from e have e': "per_lcore_rte_errno (snd ?res) = 0" by (simp add: rx_scenario_def)
  from q n le s0 s31 b' c' f1 f2 e' show ?thesis by blast
qed

text \<open>
  C2. For every configured (port, queue) pair and every requested count, with a batch of
  distinct handles the caller owns, \<open>transmit_burst\<close> returns a count that is at most the
  requested count; exactly the first \<open>actual_count\<close> handles of the batch are appended to
  the ring and leave the caller's ownership for the driver's; the handles of the remaining
  slots stay caller-owned; the batch array is not modified; and the single-owner invariant
  is kept.
\<close>

theorem transmit_burst_prefix:
  assumes q: "map_of (tx_queues w) (port_id, queue_id) = Some (ring, room)"
    and d: "distinct (load_batch tx_pkts (unat nb_pkts) (memory w))"
    and own: "set (load_batch tx_pkts (unat nb_pkts) (memory w)) \<subseteq> set (caller_owned w)"
  shows "let actual_count = fst (wrte_eth_tx_burst (nic_driver fault) port_id queue_id tx_pkts nb_pkts w);
             w' = snd (wrte_eth_tx_burst (nic_driver fault) port_id queue_id tx_pkts nb_pkts w)
         in unat actual_count \<le> unat nb_pkts
          \<and> unat actual_count = min (unat nb_pkts) room
          \<and> map_of (tx_queues w') (port_id, queue_id)
              = Some (ring @ load_batch tx_pkts (unat actual_count) (memory w),
                      room - unat actual_count)
          \<and> (\<forall>i < unat actual_count.
                memory w (tx_pkts + i) \<notin> set (caller_owned w')
              \<and> memory w (tx_pkts + i) \<in> set (nic_owned w'))
          \<and> (\<forall>i. unat actual_count \<le> i \<and> i < unat nb_pkts
                 \<longrightarrow> memory w (tx_pkts + i) \<in> set (caller_owned w'))
          \<and> memory w' = memory w
          \<and> (single_owner w \<longrightarrow> single_owner w')"
proof -
  let ?res = "wrte_eth_tx_burst (nic_driver fault) port_id queue_id tx_pkts nb_pkts w"
  let ?k = "min (unat nb_pkts) room"
  let ?batch = "load_batch tx_pkts (unat nb_pkts) (memory w)"
  let ?sent = "load_batch tx_pkts ?k (memory w)"
  have len: "unat (fst ?res) = ?k"
    by (simp add: tx_valid [OF q] unat_of_nat_min16)
  have sent: "?sent = take ?k ?batch"
    by (rule load_batch_take) simp
  have txq: "map_of (tx_queues (snd ?res)) (port_id, queue_id) = Some (ring @ ?sent, room - ?k)"
    by (simp add: tx_valid [OF q] update_conv')
  have cown: "caller_owned (snd ?res) = filter (\<lambda>h. h \<notin> set ?sent) (caller_owned w)"
    by (simp add: tx_valid [OF q])
  have mem: "memory (snd ?res) = memory w"
    by (simp add: tx_valid [OF q])
  have gone: "memory w (tx_pkts + i) \<notin> set (caller_owned (snd ?res))
      \<and> memory w (tx_pkts + i) \<in> set (nic_owned (snd ?res))" if "i < unat (fst ?res)" for i
  proof -
    from that len have i: "i < ?k" by simp
    then have "?sent ! i = memory w (tx_pkts + i)" by (rule load_batch_nth)
    moreover from i have "?sent ! i \<in> set ?sent" by (simp add: length_load_batch)
    ultimately have s: "memory w (tx_pkts + i) \<in> set ?sent" by simp
    from map_of_in_concat [OF txq, of fst] s
    have "memory w (tx_pkts + i) \<in> set (nic_owned (snd ?res))"
      by (auto simp: nic_owned_def)
    with s show ?thesis by (simp add: cown)
  qed
  have kept: "memory w (tx_pkts + i) \<in> set (caller_owned (snd ?res))"
    if "unat (fst ?res) \<le> i" "i < unat nb_pkts" for i
  proof -
    from that len have i: "?k \<le> i" "i < length ?batch" by (simp_all add: length_load_batch)
    from that(2) have v: "?batch ! i = memory w (tx_pkts + i)" by (rule load_batch_nth)
    from i have "?batch ! i \<in> set ?batch" by simp
    with own have "?batch ! i \<in> set (caller_owned w)" by blast
    moreover from nth_notin_take [OF d i] have "?batch ! i \<notin> set ?sent" by (simp add: sent)
    ultimately show ?thesis by (simp add: cown v)
  qed
  have inv: "single_owner (snd ?res)" if "single_owner w"
    using tx_single_owner [OF q that d own] .
  from len have le: "unat (fst ?res) \<le> unat nb_pkts" by simp
  from txq len have txq': "map_of (tx_queues (snd ?res)) (port_id, queue_id)
      = Some (ring @ load_batch tx_pkts (unat (fst ?res)) (memory w), room - unat (fst ?res))"
    by simp
  from le len txq' gone kept mem inv show ?thesis unfolding Let_def by blast
qed

theorem transmit_burst_prefix_witness:
  "map_of (tx_queues tx_scenario) (0, 1) = Some ([300, 301], 10)
   \<and> distinct (load_batch 0 (unat (50 :: uint16_t)) (memory tx_scenario))
   \<and> set (load_batch 0 (unat (50 :: uint16_t)) (memory tx_scenario)) \<subseteq> set (caller_owned tx_scenario)
   \<and> unat (fst (wrte_eth_tx_burst (nic_driver 19) 0 1 0 50 tx_scenario)) = 10
   \<and> memory tx_scenario (0 + 9) \<notin> set (caller_owned (snd (wrte_eth_tx_burst (nic_driver 19) 0 1 0 50 tx_scenario)))
   \<and> memory tx_scenario (0 + 9) \<in> set (nic_owned (snd (wrte_eth_tx_burst (nic_driver 19) 0 1 0 50 tx_scenario)))
   \<and> memory tx_scenario (0 + 10) \<in> set (caller_owned (snd (wrte_eth_tx_burst (nic_driver 19) 0 1 0 50 tx_scenario)))
   \<and> memory (snd (wrte_eth_tx_burst (nic_driver 19) 0 1 0 50 tx_scenario)) = memory tx_scenario
   \<and> single_owner (snd (wrte_eth_tx_burst (nic_driver 19) 0 1 0 50 tx_scenario))"
proof -
  let ?res = "wrte_eth_tx_burst (nic_driver 19) 0 1 0 50 tx_scenario"
  have q: "map_of (tx_queues tx_scenario) (0, 1) = Some ([300, 301], 10)"
    by (simp add: tx_scenario_def)
  have d: "distinct (load_batch 0 (unat (50 :: uint16_t)) (memory tx_scenario))"
    by (simp add: tx_scenario_def load_batch_def distinct_map inj_on_def)
  have own: "set (load_batch 0 (unat (50 :: uint16_t)) (memory tx_scenario)) \<subseteq> set (caller_owned tx_scenario)"
    by (simp add: tx_scenario_def load_batch_def image_def del: upt_rec_numeral) auto
  have so: "single_owner tx_scenario"
    by (simp add: tx_scenario_def single_owner_def nic_owned_def)
  note r = transmit_burst_prefix [OF q d own, of 19, unfolded Let_def]
  from r have n: "unat (fst ?res) = 10" by simp
  from r [unfolded n] have a: "\<forall>i<10. memory tx_scenario (0 + i) \<notin> set (caller_owned (snd ?res))
      \<and> memory tx_scenario (0 + i) \<in> set (nic_owned (snd ?res))"
    and k: "\<forall>i. 10 \<le> i \<and> i < unat (50 :: uint16_t)
             \<longrightarrow> memory tx_scenario (0 + i) \<in> set (caller_owned (snd ?res))"
    and m: "memory (snd ?res) = memory tx_scenario"
    and i: "single_owner tx_scenario \<longrightarrow> single_owner (snd ?res)"
    by blast+
  from a [rule_format, of 9]
  have s: "memory tx_scenario (0 + 9) \<notin> set (caller_owned (snd ?res))"
    "memory tx_scenario (0 + 9) \<in> set (nic_owned (snd ?res))"
    by auto
  from k [rule_format, of 10]
  have u: "memory tx_scenario (0 + 10) \<in> set (caller_owned (snd ?res))" by simp
  from i so have v: "single_owner (snd ?res)" by blast
  from q d own n s u m v show ?thesis by blast
qed

text \<open>
  C3, as the code has it. \<open>wrte_errno\<close> takes nothing but the calling context, is defined on
  every context, and returns the error value most recently recorded there, whether or not
  that value has been read before; it returns zero when nothing has been recorded since
  context start. Earlier reads have no influence on the value.
\<close>

theorem wrte_errno_last_recorded:
  "fst (wrte_errno (nic_driver fault) (lcore_run fault evs w))
     = (if faults evs = [] then per_lcore_rte_errno w else last (faults evs))
   \<and> fst (wrte_errno (nic_driver fault) (lcore_run fault evs lcore_start))
     = (if faults evs = [] then 0 else last (faults evs))
   \<and> snd (wrte_errno (nic_driver fault) w) = w"
  by (simp add: wrte_errno_def nic_driver_def lcore_run_errno lcore_start_def)

text \<open>
  C3, as the spec states it, fails: the spec has \<open>last_error\<close> return zero when nothing
  has failed since the last time it was read. On a context where error 19 was recorded and
  then read, nothing fails after that read, and the next read still returns 19.
\<close>

theorem wrte_errno_not_reset_by_read:
  "fst (wrte_errno (nic_driver 19) (lcore_run 19 [Fault 19, Read_errno] lcore_start)) \<noteq> 0"
  by (simp add: wrte_errno_def nic_driver_def lcore_start_def)

text \<open>
  C4. Each gateway operation is a pure pass-through of the driver's burst primitive:
  whatever the driver, and for all arguments, the wrapper returns exactly the count that
  one call of the primitive with the same port, queue, batch and requested count returns,
  and leaves the world exactly as that one call leaves it (no retry, no clamping, no
  transformation of an argument); a driver that records its calls records exactly one more.
\<close>

theorem gateway_is_pass_through:
  "wrte_eth_rx_burst d port_id queue_id pkts nb_pkts w
     = rte_eth_rx_burst d port_id queue_id pkts nb_pkts w
   \<and> wrte_eth_tx_burst d port_id queue_id pkts nb_pkts w
     = rte_eth_tx_burst d port_id queue_id pkts nb_pkts w
   \<and> length (snd (snd (wrte_eth_rx_burst (logged d) port_id queue_id pkts nb_pkts (w, calls))))
     = Suc (length calls)
   \<and> length (snd (snd (wrte_eth_tx_burst (logged d) port_id queue_id pkts nb_pkts (w, calls))))
     = Suc (length calls)"
  by (simp add: wrte_eth_rx_burst_def wrte_eth_tx_burst_def logged_def)

text \<open>
  C5. After \<open>receive_burst\<close> on a configured queue of a world where every handle has one
  owner, each of the first \<open>actual_count\<close> slots holds the next pending handle of the
  queue, which the caller now owns and no queue or ring of the NIC holds any more; these
  handles are pairwise distinct and the single-owner invariant is kept; every slot from
  \<open>actual_count\<close> up to the requested count holds what it held before.
\<close>

theorem receive_burst_slots:
  assumes q: "map_of (rx_queues w) (port_id, queue_id) = Some pending"
    and so: "single_owner w"
  shows "let actual_count = fst (wrte_eth_rx_burst (nic_driver fault) port_id queue_id rx_pkts nb_pkts w);
             w' = snd (wrte_eth_rx_burst (nic_driver fault) port_id queue_id rx_pkts nb_pkts w)
         in (\<forall>i < unat actual_count.
               memory w' (rx_pkts + i) = pending ! i
             \<and> memory w' (rx_pkts + i) \<in> set (caller_owned w')
             \<and> memory w' (rx_pkts + i) \<notin> set (nic_owned w'))
          \<and> distinct (load_batch rx_pkts (unat actual_count) (memory w'))
          \<and> single_owner w'
          \<and> (\<forall>i. unat actual_count \<le> i \<and> i < unat nb_pkts
                 \<longrightarrow> memory w' (rx_pkts + i) = memory w (rx_pkts + i))"
proof -
  let ?res = "wrte_eth_rx_burst (nic_driver fault) port_id queue_id rx_pkts nb_pkts w"
  let ?got = "take (unat nb_pkts) pending"
  have len: "unat (fst ?res) = length ?got"
    by (simp add: rx_valid [OF q] unat_of_nat_min16)
  have mem: "memory (snd ?res) = store_batch rx_pkts ?got (memory w)"
    and own: "caller_owned (snd ?res) = caller_owned w @ ?got"
    by (simp_all add: rx_valid [OF q])
  note excl =
    rx_single_owner(1) [OF q so, where fault = fault and b = rx_pkts and n = nb_pkts]
    rx_single_owner(2) [OF q so, where fault = fault and b = rx_pkts and n = nb_pkts]
    rx_single_owner(3) [OF q so]
  have slot: "memory (snd ?res) (rx_pkts + i) = pending ! i
      \<and> memory (snd ?res) (rx_pkts + i) \<in> set (caller_owned (snd ?res))
      \<and> memory (snd ?res) (rx_pkts + i) \<notin> set (nic_owned (snd ?res))"
    if "i < unat (fst ?res)" for i
  proof -
    from that len have i: "i < length ?got" by simp
    then have v: "memory (snd ?res) (rx_pkts + i) = ?got ! i"
      by (simp add: mem store_batch_apply)
    from i have "?got ! i \<in> set ?got" by (rule nth_mem)
    with excl(2) have "?got ! i \<notin> set (nic_owned (snd ?res))" by blast
    with v i \<open>?got ! i \<in> set ?got\<close> show ?thesis by (simp add: own)
  qed
  have "load_batch rx_pkts (unat (fst ?res)) (memory (snd ?res)) = ?got"
    unfolding len mem by (rule load_store_batch)
  with excl(3) have dist: "distinct (load_batch rx_pkts (unat (fst ?res)) (memory (snd ?res)))"
    by simp
  have frame: "memory (snd ?res) (rx_pkts + i) = memory w (rx_pkts + i)"
    if "unat (fst ?res) \<le> i" for i
    using that len by (auto simp: mem store_batch_apply)
  from slot dist excl(1) frame show ?thesis unfolding Let_def by blast
qed

theorem receive_burst_slots_witness:
  "map_of (rx_queues rx_scenario) (0, 0) = Some [100..<132]
   \<and> single_owner rx_scenario
   \<and> memory (snd (wrte_eth_rx_burst (nic_driver 19) 0 0 1000 64 rx_scenario)) (1000 + 31) = 131
   \<and> memory (snd (wrte_eth_rx_burst (nic_driver 19) 0 0 1000 64 rx_scenario)) (1000 + 31)
       \<in> set (caller_owned (snd (wrte_eth_rx_burst (nic_driver 19) 0 0 1000 64 rx_scenario)))
   \<and> memory (snd (wrte_eth_rx_burst (nic_driver 19) 0 0 1000 64 rx_scenario)) (1000 + 31)
       \<notin> set (nic_owned (snd (wrte_eth_rx_burst (nic_driver 19) 0 0 1000 64 rx_scenario)))
   \<and> distinct (load_batch 1000 32 (memory (snd (wrte_eth_rx_burst (nic_driver 19) 0 0 1000 64 rx_scenario))))
   \<and> single_owner (snd (wrte_eth_rx_burst (nic_driver 19) 0 0 1000 64 rx_scenario))
   \<and> memory (snd (wrte_eth_rx_burst (nic_driver 19) 0 0 1000 64 rx_scenario)) (1000 + 32)
       = memory rx_scenario (1000 + 32)"
proof -
  let ?res = "wrte_eth_rx_burst (nic_driver 19) 0 0 1000 64 rx_scenario"
  have q: "map_of (rx_queues rx_scenario) (0, 0) = Some [100..<132]"
    by (simp add: rx_scenario_def)
  have so: "single_owner rx_scenario"
    by (simp add: rx_scenario_def single_owner_def nic_owned_def)
  have n: "unat (fst ?res) = 32"
    by (simp add: rx_valid [OF q] unat_of_nat_min16)
  note r = receive_burst_slots [OF q so, of 19 1000 64, unfolded Let_def n]
  from r have a: "\<forall>i<32. memory (snd ?res) (1000 + i) = [100..<132] ! i
      \<and> memory (snd ?res) (1000 + i) \<in> set (caller_owned (snd ?res))
      \<and> memory (snd ?res) (1000 + i) \<notin> set (nic_owned (snd ?res))"
    by blast
  from r have d: "distinct (load_batch 1000 32 (memory (snd ?res)))"
    and i: "single_owner (snd ?res)"
    and f: "\<forall>i. 32 \<le> i \<and> i < unat (64 :: uint16_t)
             \<longrightarrow> memory (snd ?res) (1000 + i) = memory rx_scenario (1000 + i)"
    by blast+
  from a [rule_format, of 31]
  have s: "memory (snd ?res) (1000 + 31) = 131"
    "memory (snd ?res) (1000 + 31) \<in> set (caller_owned (snd ?res))"
    "memory (snd ?res) (1000 + 31) \<notin> set (nic_owned (snd ?res))"
    by auto
  from f [rule_format, of 32]
  have u: "memory (snd ?res) (1000 + 32) = memory rx_scenario (1000 + 32)" by simp
  from q so s d i u show ?thesis by blast
qed

text \<open>
  C6. Combining offload flags is the bitwise union of their 64-bit values, and it is
  commutative and idempotent, whatever the values \<open>v\<close> of the enumerators are.
\<close>

theorem offload_union_laws:
  "offload_union (v A) (v B) = offload_union (v B) (v A)
   \<and> offload_union (v A) (v A) = v A
   \<and> offload_union (v A) (v B) = v A OR v B"
  for v :: "wrte_eth_tx_offload \<Rightarrow> uint64_t"
  by (simp add: offload_union_def or.commute)

text \<open>
  C7. Every offload flag occupies exactly one bit of the 64-bit domain: its value is a power
  of two below \<open>2 ^ 64\<close>, which the 64-bit word holds without truncation; the fourteen
  enumerators have pairwise distinct values; and in the union of two flags each of the two
  tests as present, and no other flag does.
\<close>

theorem offload_flags_one_bit_each:
  "offload_bit f < 64
   \<and> offload_value f = 2 ^ offload_bit f
   \<and> unat (offload_value f) = 2 ^ offload_bit f
   \<and> (offload_value f = offload_value g) = (f = g)
   \<and> length all_offloads = 14 \<and> set all_offloads = UNIV
   \<and> distinct (map offload_value all_offloads)
   \<and> offload_union (offload_value f) (offload_value g) AND offload_value f = offload_value f
   \<and> offload_union (offload_value f) (offload_value g) AND offload_value g = offload_value g
   \<and> (offload_union (offload_value f) (offload_value g) AND offload_value h \<noteq> 0)
       = (h = f \<or> h = g)"
proof -
  have "length all_offloads = 14" by (simp add: all_offloads_def)
  with offload_bit_less offload_value_power unat_offload_value offload_value_inj
    all_offloads_UNIV distinct_offload_values offload_test_present offload_test_iff
  show ?thesis by blast
qed

text \<open>
  C8. The wrappers validate nothing: for every port and queue identifier, configured or
  not, a driver that records its calls receives exactly one call carrying the identifiers
  (and batch and count) unchanged, and the wrapper's count is the driver's. On identifiers
  that are not configured, the rejection (a count of zero, the fault code in the error
  slot) is the driver's.
\<close>

theorem identifiers_forwarded_unchecked:
  "snd (snd (wrte_eth_rx_burst (logged d) port_id queue_id pkts nb_pkts (w, calls)))
     = calls @ [Rx_burst port_id queue_id pkts nb_pkts]
   \<and> snd (snd (wrte_eth_tx_burst (logged d) port_id queue_id pkts nb_pkts (w, calls)))
     = calls @ [Tx_burst port_id queue_id pkts nb_pkts]
   \<and> fst (wrte_eth_rx_burst (logged d) port_id queue_id pkts nb_pkts (w, calls))
     = fst (rte_eth_rx_burst d port_id queue_id pkts nb_pkts w)
   \<and> fst (wrte_eth_tx_burst (logged d) port_id queue_id pkts nb_pkts (w, calls))
     = fst (rte_eth_tx_burst d port_id queue_id pkts nb_pkts w)
   \<and> (map_of (rx_queues nw) (port_id, queue_id) = None \<longrightarrow>
        wrte_eth_rx_burst (nic_driver fault) port_id queue_id pkts nb_pkts nw
          = (0, nw\<lparr>per_lcore_rte_errno := fault\<rparr>))
   \<and> (map_of (tx_queues nw) (port_id, queue_id) = None \<longrightarrow>
        wrte_eth_tx_burst (nic_driver fault) port_id queue_id pkts nb_pkts nw
          = (0, nw\<lparr>per_lcore_rte_errno := fault\<rparr>))"
  by (simp add: wrte_eth_rx_burst_def wrte_eth_tx_burst_def logged_def nic_driver_def
      nic_rx_burst_def nic_tx_burst_def)

theorem identifiers_forwarded_unchecked_witness:
  "map_of (rx_queues lcore_start) (7, 3) = None
   \<and> map_of (tx_queues lcore_start) (7, 3) = None
   \<and> wrte_eth_rx_burst (nic_driver 19) 7 3 0 8 lcore_start
       = (0, lcore_start\<lparr>per_lcore_rte_errno := 19\<rparr>)
   \<and> wrte_eth_tx_burst (nic_driver 19) 7 3 0 8 lcore_start
       = (0, lcore_start\<lparr>per_lcore_rte_errno := 19\<rparr>)
   \<and> snd (snd (wrte_eth_rx_burst (logged (nic_driver 19)) 7 3 0 8 (lcore_start, [])))
       = [Rx_burst 7 3 0 8]
   \<and> snd (snd (wrte_eth_tx_burst (logged (nic_driver 19)) 7 3 0 8 (lcore_start, [])))
       = [Tx_burst 7 3 0 8]"
proof -
  have q: "map_of (rx_queues lcore_start) (7, 3) = None" "map_of (tx_queues lcore_start) (7, 3) = None"
    by (simp_all add: lcore_start_def)
  from identifiers_forwarded_unchecked
    [of "nic_driver 19" 7 3 0 8 lcore_start "[]" lcore_start 19] q
  show ?thesis by simp
qed

text \<open>
  C9. Port, queue, requested count and returned count are 16-bit unsigned values: each is
  at most 65535, and a wider value converted at the interface is taken modulo \<open>2 ^ 16\<close>,
  so that a call with it is the call with its residue.
\<close>

theorem burst_interface_is_16_bit:
  "unat (fst (wrte_eth_rx_burst d port_id queue_id pkts nb_pkts w)) \<le> 65535
   \<and> unat (fst (wrte_eth_tx_burst d port_id queue_id pkts nb_pkts w)) \<le> 65535
   \<and> unat port_id \<le> 65535 \<and> unat queue_id \<le> 65535 \<and> unat nb_pkts \<le> 65535
   \<and> unat (of_nat n :: uint16_t) = n mod 65536
   \<and> wrte_eth_rx_burst d (of_nat p) (of_nat q) pkts (of_nat n) w
     = wrte_eth_rx_burst d (of_nat (p mod 65536)) (of_nat (q mod 65536)) pkts (of_nat (n mod 65536)) w
   \<and> wrte_eth_tx_burst d (of_nat p) (of_nat q) pkts (of_nat n) w
     = wrte_eth_tx_burst d (of_nat (p mod 65536)) (of_nat (q mod 65536)) pkts (of_nat (n mod 65536)) w"
proof -
  have b: "unat x \<le> 65535" for x :: "16 word"
    using unsigned_less [of x, where 'a = nat] by simp
  have m: "(of_nat (k mod 65536) :: 16 word) = of_nat k" for k
    by (simp add: word_of_nat_eq_iff take_bit_eq_mod)
  have u: "unat (of_nat k :: 16 word) = k mod 65536" for k
    by (simp add: unat_of_nat)
  show ?thesis by (simp add: b m u)
qed

text \<open>
  C10. Reading the error code is non-destructive: \<open>wrte_errno\<close> leaves the world, and with
  it the error slot, unchanged, so a second call right after the first returns the same
  value.
\<close>

theorem wrte_errno_read_twice:
  "snd (wrte_errno d w) = w
   \<and> fst (wrte_errno d (snd (wrte_errno d w))) = fst (wrte_errno d w)"
  by (simp add: wrte_errno_def)

end
